theory Spec2Isabelle
  imports Main
begin

section \<open>Python strings\<close>

text \<open>
  A Python \<open>str\<close> is modelled as a \<open>string\<close>: one \<open>char\<close> per code point, for
  code points U+0000 to U+00FF. \<open>len\<close> is \<open>length\<close>, slicing is \<open>take\<close> and
  \<open>drop\<close>, \<open>+\<close> is \<open>@\<close>. \<open>None\<close> or a string is a \<open>string option\<close>.
\<close>

definition code :: "char \<Rightarrow> nat" where
  "code c = of_char c"

text \<open>The character class \<open>[a-zA-Z0-9_-]\<close> of the pattern in \<open>extract_drive_id\<close>.\<close>

definition is_id_char :: "char \<Rightarrow> bool" where
  "is_id_char c \<longleftrightarrow>
     (97 \<le> code c \<and> code c \<le> 122) \<or> (65 \<le> code c \<and> code c \<le> 90) \<or>
     (48 \<le> code c \<and> code c \<le> 57) \<or> c = CHR ''_'' \<or> c = CHR ''-''"

text \<open>
  Python's whitespace below U+0100, which both \<open>\s\<close> of \<open>re\<close> (on \<open>str\<close>) and
  \<open>str.strip()\<close> use: tab to carriage return, the separators U+001C to U+001F, space,
  U+0085 and U+00A0.
\<close>

definition is_space :: "char \<Rightarrow> bool" where
  "is_space c \<longleftrightarrow>
     (9 \<le> code c \<and> code c \<le> 13) \<or> (28 \<le> code c \<and> code c \<le> 32) \<or>
     code c = 133 \<or> code c = 160"

text \<open>The class \<open>["']\<close> of the \<open>data-id\<close> pattern.\<close>

definition is_quote :: "char \<Rightarrow> bool" where
  "is_quote c \<longleftrightarrow> c = CHR 0x22 \<or> c = CHR 0x27"

text \<open>\<open>s.startswith(p)\<close>.\<close>

definition startswith :: "string \<Rightarrow> string \<Rightarrow> bool" where
  "startswith p s \<longleftrightarrow> take (length p) s = p"

text \<open>\<open>sub in s\<close>.\<close>

fun contains :: "string \<Rightarrow> string \<Rightarrow> bool" where
  "contains sub [] = startswith sub []"
| "contains sub (c # cs) = (startswith sub (c # cs) \<or> contains sub cs)"

text \<open>
  \<open>s.split(d)\<close> for a separator of one character: never empty, the empty string gives
  one empty piece.
\<close>

fun split_on :: "char \<Rightarrow> string \<Rightarrow> string list" where
  "split_on d [] = [[]]"
| "split_on d (c # cs) =
     (if c = d then [] # split_on d cs
      else (case split_on d cs of [] \<Rightarrow> [[c]] | p # ps \<Rightarrow> (c # p) # ps))"



text \<open>Truth value of \<open>None\<close> or a string: \<open>None\<close> and the empty string are false.\<close>

definition truthy :: "string option \<Rightarrow> bool" where
  "truthy x = (case x of None \<Rightarrow> False | Some s \<Rightarrow> s \<noteq> [])"

text \<open>How an f-string shows a natural number, and \<open>None\<close> or a string.\<close>

definition digit_char :: "nat \<Rightarrow> char" where
  "digit_char d = char_of (48 + d)"

fun str_nat :: "nat \<Rightarrow> string" where
  "str_nat n = (if n < 10 then [digit_char n] else str_nat (n div 10) @ [digit_char (n mod 10)])"

declare str_nat.simps [simp del]

definition str_opt :: "string option \<Rightarrow> string" where
  "str_opt x = (case x of None \<Rightarrow> ''None'' | Some s \<Rightarrow> s)"

subsection \<open>urllib.parse.unquote\<close>

definition is_hex :: "char \<Rightarrow> bool" where
  "is_hex c \<longleftrightarrow>
     (48 \<le> code c \<and> code c \<le> 57) \<or> (65 \<le> code c \<and> code c \<le> 70) \<or>
     (97 \<le> code c \<and> code c \<le> 102)"

definition hex_val :: "char \<Rightarrow> nat" where
  "hex_val c = (if code c \<le> 57 then code c - 48 else if code c \<le> 70 then code c - 55
                else code c - 87)"

text \<open>
  \<open>unquote\<close> of the standard library replaces every \<open>%XY\<close> with two hexadecimal digits
  by the byte they name, leaves any other \<open>%\<close> in place, and decodes the bytes as UTF-8.
  The model is exact for escapes below \<open>%80\<close>; an escape from \<open>%80\<close> on stands for
  the character of that code, the UTF-8 decoding of such bytes (to code points beyond
  U+00FF, or to U+FFFD) being outside the string model.
\<close>

fun unquote :: "string \<Rightarrow> string" where
  "unquote [] = []"
| "unquote (c # cs) =
     (if c = CHR ''%'' then
        (case cs of
           a # b # rest \<Rightarrow>
             if is_hex a \<and> is_hex b then char_of (16 * hex_val a + hex_val b) # unquote rest
             else c # unquote cs
         | _ \<Rightarrow> c # unquote cs)
      else c # unquote cs)"

section \<open>The outside world\<close>

text \<open>
  Exceptions are values. \<open>RequestException\<close> stands for every exception of the
  \<open>requests\<close> hierarchy (the ones the \<open>except\<close> clauses of the script catch), with its
  message; \<open>ValueError\<close> is raised by \<open>int\<close>, \<open>OSError\<close> by \<open>open\<close>.
\<close>

datatype error = RequestException string | ValueError string | OSError string

definition str_error :: "error \<Rightarrow> string" where
  "str_error e = (case e of RequestException m \<Rightarrow> m | ValueError m \<Rightarrow> m | OSError m \<Rightarrow> m)"

record request =
  req_url :: string
  req_cookies :: "(string \<times> string) list"
  req_headers :: "(string \<times> string) list"
  req_stream :: bool

text \<open>
  A response: \<open>resp_text\<close> is \<open>response.text\<close>, \<open>resp_cookies\<close> is
  \<open>response.cookies.get_dict()\<close>, \<open>content_length\<close> is
  \<open>response.headers.get('content-length')\<close>, and \<open>iter_content r n\<close> lists the chunks
  that \<open>response.iter_content(chunk_size=n)\<close> yields; when the connection breaks while
  streaming, \<open>stream_error\<close> is the exception raised after the last of these chunks.
\<close>

record response =
  status_code :: nat
  reason :: string
  resp_url :: string
  resp_text :: string
  resp_cookies :: "(string \<times> string) list"
  content_length :: "string option"
  iter_content :: "int \<Rightarrow> string list"
  stream_error :: "error option"

text \<open>The remote side: what \<open>requests.get\<close> returns or raises for a request.\<close>

type_synonym net = "request \<Rightarrow> error + response"

text \<open>
  The local side: the regular files by name with their contents, the names that
  \<open>open\<close> accepts for writing, the arguments of the \<open>print\<close> calls so far, the requests
  sent so far, and the files opened so far with their modes. The progress bar of
  \<open>tqdm\<close> is display only and is left out.
\<close>

record world =
  files :: "string \<rightharpoonup> string"
  writable :: "string \<Rightarrow> bool"
  printed :: "string list"
  sent :: "request list"
  opened :: "(string \<times> string) list"

definition print :: "string \<Rightarrow> world \<Rightarrow> world" where
  "print line w = w\<lparr>printed := printed w @ [line]\<rparr>"

definition send :: "request \<Rightarrow> world \<Rightarrow> world" where
  "send rq w = w\<lparr>sent := sent w @ [rq]\<rparr>"

text \<open>\<open>response.raise_for_status()\<close> of \<open>requests\<close>.\<close>

definition raise_for_status :: "response \<Rightarrow> error + unit" where
  "raise_for_status r =
     (if 400 \<le> status_code r \<and> status_code r < 500
      then Inl (RequestException (str_nat (status_code r) @ '' Client Error: '' @ reason r @
                  '' for url: '' @ resp_url r))
      else if 500 \<le> status_code r \<and> status_code r < 600
      then Inl (RequestException (str_nat (status_code r) @ '' Server Error: '' @ reason r @
                  '' for url: '' @ resp_url r))
      else Inr ())"

text \<open>\<open>os.path.exists\<close> and \<open>os.path.getsize\<close>.\<close>

definition path_exists :: "world \<Rightarrow> string \<Rightarrow> bool" where
  "path_exists w filename \<longleftrightarrow> files w filename \<noteq> None"

definition getsize :: "world \<Rightarrow> string \<Rightarrow> nat" where
  "getsize w filename = (case files w filename of None \<Rightarrow> 0 | Some data \<Rightarrow> length data)"

text \<open>
  \<open>open(filename, mode)\<close> for the modes \<open>wb\<close> and \<open>ab\<close>: \<open>wb\<close> creates the file or
  empties it, \<open>ab\<close> creates it when it is absent and keeps its contents otherwise.
\<close>

definition open_file :: "string \<Rightarrow> string \<Rightarrow> world \<Rightarrow> error + world" where
  "open_file filename file_mode w =
     (if \<not> writable w filename then Inl (OSError filename)
      else Inr (w\<lparr>opened := opened w @ [(filename, file_mode)],
                  files := (if file_mode = ''ab'' \<and> files w filename \<noteq> None then files w
                            else (files w)(filename \<mapsto> []))\<rparr>))"

text \<open>\<open>file.write(chunk)\<close> on the open file.\<close>

definition write_file :: "string \<Rightarrow> string \<Rightarrow> world \<Rightarrow> world" where
  "write_file filename chunk w =
     w\<lparr>files := (files w)(filename \<mapsto> (case files w filename of None \<Rightarrow> chunk
                                          | Some data \<Rightarrow> data @ chunk))\<rparr>"

text \<open>
  \<open>int(s)\<close> on a string: whitespace around, an optional sign, then decimal digits, with
  single underscores allowed between digits. The whitespace that \<open>int\<close> skips is tab to
  carriage return, space, U+0085 and U+00A0; unlike \<open>str.strip()\<close> it does not skip
  U+001C to U+001F.
\<close>

definition is_int_space :: "char \<Rightarrow> bool" where
  "is_int_space c \<longleftrightarrow>
     (9 \<le> code c \<and> code c \<le> 13) \<or> code c = 32 \<or> code c = 133 \<or> code c = 160"

definition is_digit :: "char \<Rightarrow> bool" where
  "is_digit c \<longleftrightarrow> 48 \<le> code c \<and> code c \<le> 57"

fun digits_ok :: "string \<Rightarrow> bool" where
  "digits_ok [] = False"
| "digits_ok [c] = is_digit c"
| "digits_ok (c # d # ds) =
     (is_digit c \<and> (if d = CHR ''_'' then digits_ok ds else digits_ok (d # ds)))"

definition dec_val :: "string \<Rightarrow> nat" where
  "dec_val ds = foldl (\<lambda>n c. 10 * n + (code c - 48)) 0 (filter is_digit ds)"

definition py_int :: "string \<Rightarrow> error + int" where
  "py_int s =
     (let t = rev (dropWhile is_int_space (rev (dropWhile is_int_space s)));
          neg = (t \<noteq> [] \<and> hd t = CHR ''-'');
          body = (if t \<noteq> [] \<and> (hd t = CHR ''-'' \<or> hd t = CHR ''+'') then tl t else t)
      in if digits_ok body then Inr (if neg then - int (dec_val body) else int (dec_val body))
         else Inl (ValueError s))"

section \<open>extract_drive_id\<close>

text \<open>
  The pattern \<open>/file/d/([a-zA-Z0-9_-]+)\<close> tried at the start of \<open>s\<close>: the literal, then the
  greedy run of class characters, which must not be empty. The value is group 1.
\<close>

definition match_file_d :: "string \<Rightarrow> string option" where
  "match_file_d s =
     (if startswith ''/file/d/'' s
      then (let g = takeWhile is_id_char (drop 8 s) in if g = [] then None else Some g)
      else None)"

text \<open>\<open>re.search\<close>: the match at the leftmost position that has one.\<close>

fun search_file_d :: "string \<Rightarrow> string option" where
  "search_file_d [] = match_file_d []"
| "search_file_d (c # cs) =
     (case match_file_d (c # cs) of Some g \<Rightarrow> Some g | None \<Rightarrow> search_file_d cs)"

definition extract_drive_id :: "string \<Rightarrow> string" where
  "extract_drive_id input_str =
     (case search_file_d input_str of Some g \<Rightarrow> g | None \<Rightarrow> input_str)"

text \<open>
  What the specification calls a segment \<open>/file/d/<token>\<close> at index \<open>i\<close> of \<open>s\<close>: the literal
  \<open>/file/d/\<close> at \<open>i\<close>, followed by at least one class character.
\<close>

definition segment_at :: "string \<Rightarrow> nat \<Rightarrow> bool" where
  "segment_at s i \<longleftrightarrow>
     i + 8 < length s \<and> take 8 (drop i s) = ''/file/d/'' \<and> is_id_char (s ! (i + 8))"


section \<open>extract_bulk_data_ids_from_folder\<close>

text \<open>
  The pattern \<open>data-id\s*=\s*["']([^"']+)["']\<close> tried at the start of \<open>s\<close>. Every
  repetition is greedy and is followed by a character outside its class, so the match is
  found without backtracking. The value is group 1 with the rest of \<open>s\<close> after the
  match.
\<close>

definition match_data_id :: "string \<Rightarrow> (string \<times> string) option" where
  "match_data_id s =
     (if startswith ''data-id'' s then
        (case dropWhile is_space (drop 7 s) of
           [] \<Rightarrow> None
         | e # s2 \<Rightarrow>
             if e \<noteq> CHR ''='' then None
             else (case dropWhile is_space s2 of
                     [] \<Rightarrow> None
                   | q # s3 \<Rightarrow>
                       if \<not> is_quote q then None
                       else (let g = takeWhile (\<lambda>c. \<not> is_quote c) s3 in
                             if g = [] then None
                             else (case dropWhile (\<lambda>c. \<not> is_quote c) s3 of
                                     [] \<Rightarrow> None
                                   | q' # rest \<Rightarrow> Some (g, rest)))))
      else None)"

lemma match_data_id_shorter:
  "match_data_id s = Some (g, rest) \<Longrightarrow> length rest < length s"
proof -
  have dw: "length (dropWhile P xs) \<le> length xs" for P and xs :: string
    by (induction xs) auto
  assume m: "match_data_id s = Some (g, rest)"
  then obtain e s2 q s3 q' where
    a: "dropWhile is_space (drop 7 s) = e # s2" and
    b: "dropWhile is_space s2 = q # s3" and
    c: "dropWhile (\<lambda>c. \<not> is_quote c) s3 = q' # rest"
    by (auto simp: match_data_id_def Let_def split: if_splits list.splits)
  have "length rest < length s3" using dw [of "\<lambda>c. \<not> is_quote c" s3] c by simp
  also have "length s3 < length s2" using dw [of is_space s2] b by simp
  also have "length s2 < length (drop 7 s)" using dw [of is_space "drop 7 s"] a by simp
  also have "length (drop 7 s) \<le> length s" by simp
  finally show ?thesis .
qed

text \<open>
  \<open>re.findall\<close>: the matches from left to right, each search starting where the
  previous match ended; the result lists group 1 of each.
\<close>

function findall_data_id :: "string \<Rightarrow> string list" where
  "findall_data_id s =
     (case match_data_id s of
        Some (g, rest) \<Rightarrow> g # findall_data_id rest
      | None \<Rightarrow> (case s of [] \<Rightarrow> [] | c # cs \<Rightarrow> findall_data_id cs))"
  by pat_completeness auto
termination
  by (relation "measure length") (auto dest: match_data_id_shorter)

declare findall_data_id.simps [simp del]

text \<open>The loop over \<open>matches\<close> of the first definition (lines 34 to 40).\<close>

fun collect_ids_first :: "string list \<Rightarrow> string list \<Rightarrow> string set \<Rightarrow> string list" where
  "collect_ids_first [] data_ids seen = data_ids"
| "collect_ids_first (data_id # matches) data_ids seen =
     (if length data_id < 5 then collect_ids_first matches data_ids seen
      else if data_id \<notin> seen
      then collect_ids_first matches (data_ids @ [data_id]) (insert data_id seen)
      else collect_ids_first matches data_ids seen)"

text \<open>The first definition (lines 19 to 47), which the second one replaces.\<close>

definition extract_bulk_data_ids_from_folder_first ::
  "net \<Rightarrow> string \<Rightarrow> bool \<Rightarrow> world \<Rightarrow> string list \<times> world" where
  "extract_bulk_data_ids_from_folder_first net url verbose w =
     (let w1 = (if verbose then print (''[INFO] Fetching folder URL: '' @ url) w else w);
          rq = \<lparr>req_url = url, req_cookies = [], req_headers = [], req_stream = False\<rparr>;
          w2 = send rq w1
      in case net rq of
           Inl e \<Rightarrow> ([], print (''Error fetching folder URL: '' @ str_error e) w2)
         | Inr response \<Rightarrow>
             (case raise_for_status response of
                Inl e \<Rightarrow> ([], print (''Error fetching folder URL: '' @ str_error e) w2)
              | Inr _ \<Rightarrow>
                  (let matches = findall_data_id (resp_text response);
                       data_ids = collect_ids_first matches [] {};
                       w3 = (if verbose
                             then print (''[INFO] Total unique data-ids found: '' @
                                           str_nat (length data_ids)) w2
                             else w2)
                   in (data_ids, w3))))"

text \<open>The loop over \<open>matches\<close> of the second definition (lines 94 to 100).\<close>

fun collect_ids :: "string list \<Rightarrow> string list \<Rightarrow> string set \<Rightarrow> string list" where
  "collect_ids [] data_ids seen = data_ids"
| "collect_ids (data_id # matches) data_ids seen =
     (if length data_id < 5 then collect_ids matches data_ids seen
      else if data_id \<notin> seen
      then collect_ids matches (data_ids @ [data_id]) (insert data_id seen)
      else collect_ids matches data_ids seen)"

text \<open>The second definition (lines 78 to 110), the one the program runs.\<close>

definition extract_bulk_data_ids_from_folder ::
  "net \<Rightarrow> string \<Rightarrow> bool \<Rightarrow> world \<Rightarrow> string list \<times> world" where
  "extract_bulk_data_ids_from_folder net url verbose w =
     (let w1 = (if verbose then print (''[INFO] Fetching URL: '' @ url) w else w);
          rq = \<lparr>req_url = url, req_cookies = [], req_headers = [], req_stream = False\<rparr>;
          w2 = send rq w1
      in case net rq of
           Inl e \<Rightarrow> ([], print (''Error fetching URL: '' @ str_error e) w2)
         | Inr response \<Rightarrow>
             (case raise_for_status response of
                Inl e \<Rightarrow> ([], print (''Error fetching URL: '' @ str_error e) w2)
              | Inr _ \<Rightarrow>
                  (let matches = findall_data_id (resp_text response);
                       data_ids = collect_ids matches [] {};
                       w3 = (if verbose
                             then fold (\<lambda>i. print (''[INFO] Found data-id: '' @ i)) data_ids
                                    (print (''[INFO] Total unique data-ids found: '' @
                                              str_nat (length data_ids)) w2)
                             else w2)
                   in (data_ids, w3))))"

text \<open>
  The words of the specification about the listing: the values in order of first occurrence,
  every later occurrence of a value already seen being dropped.
\<close>

definition first_seen :: "'a list \<Rightarrow> 'a list" where
  "first_seen xs = rev (remdups (rev xs))"

section \<open>get_video_url\<close>

text \<open>
  The loop over \<open>contentList\<close> (lines 118 to 124), with \<open>video\<close> and \<open>title\<close> as
  they stand before the token; \<open>break\<close> ends the recursion.
\<close>

fun scan_contents ::
  "string list \<Rightarrow> string option \<Rightarrow> string option \<Rightarrow> string option \<times> string option" where
  "scan_contents [] video title = (video, title)"
| "scan_contents (content # contentList) video title =
     (let (video', title') =
            (if startswith ''title='' content \<and> \<not> truthy title
             then (video, Some (unquote (last (split_on CHR ''='' content))))
             else if contains ''videoplayback'' content \<and> \<not> truthy video
             then (Some (last (split_on CHR ''|'' (unquote content))), title)
             else (video, title))
      in if truthy video' \<and> truthy title' then (video', title')
         else scan_contents contentList video' title')"

definition get_video_url ::
  "string \<Rightarrow> bool \<Rightarrow> world \<Rightarrow> (string option \<times> string option) \<times> world" where
  "get_video_url page_content verbose w =
     (let w1 = (if verbose then print ''[INFO] Parsing video playback URL and title.'' w else w);
          contentList = split_on CHR ''&'' page_content;
          (video, title) = scan_contents contentList None None;
          w2 = (if verbose
                then print (''[INFO] Video Title: '' @ str_opt title)
                       (print (''[INFO] Video URL: '' @ str_opt video) w1)
                else w1)
      in ((video, title), w2))"

text \<open>The words of the specification: the part of a string after its last \<open>d\<close>.\<close>

definition after_last :: "char \<Rightarrow> string \<Rightarrow> string" where
  "after_last d s = rev (takeWhile (\<lambda>c. c \<noteq> d) (rev s))"

section \<open>download_file\<close>

definition download_file ::
  "net \<Rightarrow> string \<Rightarrow> (string \<times> string) list \<Rightarrow> string \<Rightarrow> int \<Rightarrow> bool \<Rightarrow> world \<Rightarrow>
   (error + unit) \<times> world" where
  "download_file net url cookies filename chunk_size verbose w =
     (let ex = path_exists w filename;
          downloaded_size = (if ex then getsize w filename else 0);
          headers = (if ex then [(''Range'', ''bytes='' @ str_nat downloaded_size @ ''-'')] else []);
          file_mode = (if ex then ''ab'' else ''wb'');
          w1 = (if verbose
                then (let v = print (''[INFO] Starting download from '' @ url) w
                      in if downloaded_size > 0
                         then print (''[INFO] Resuming download from byte '' @
                                       str_nat downloaded_size) v
                         else v)
                else w);
          rq = \<lparr>req_url = url, req_cookies = cookies, req_headers = headers, req_stream = True\<rparr>;
          w2 = send rq w1
      in case net rq of
           Inl e \<Rightarrow> (Inl e, w2)
         | Inr response \<Rightarrow>
             if status_code response = 200 \<or> status_code response = 206 then
               (case (case content_length response of None \<Rightarrow> Inr 0 | Some h \<Rightarrow> py_int h) of
                  Inl e \<Rightarrow> (Inl e, w2)
                | Inr n \<Rightarrow>
                    (let total_size = n + int downloaded_size in
                     case open_file filename file_mode w2 of
                       Inl e \<Rightarrow> (Inl e, w2)
                     | Inr w3 \<Rightarrow>
                         (let w4 = fold (\<lambda>chunk v. if chunk \<noteq> [] then write_file filename chunk v
                                                   else v)
                                     (iter_content response chunk_size) w3
                          in case stream_error response of
                               Some e \<Rightarrow> (Inl e, w4)
                             | None \<Rightarrow>
                                 (Inr (), print (CHR 0x0A # filename @
                                                   '' downloaded successfully.'') w4))))
             else (Inr (), print (''Error downloading '' @ filename @ '', status code: '' @
                                    str_nat (status_code response)) w2))"

section \<open>sanitize_filename and download_from_video_id\<close>








section \<open>Concrete inputs\<close>

text \<open>An empty directory where every name can be written, and nothing printed or sent yet.\<close>

definition fresh_world :: world where
  "fresh_world =
     \<lparr>files = Map.empty, writable = (\<lambda>_. True), printed = [], sent = [], opened = []\<rparr>"

text \<open>A remote side that answers every request with status \<open>st\<close> and the given body.\<close>

definition serve :: "nat \<Rightarrow> string \<Rightarrow> net" where
  "serve st body =
     (\<lambda>rq. Inr \<lparr>status_code = st, reason = ''OK'', resp_url = req_url rq, resp_text = body,
                 resp_cookies = [], content_length = None,
                 iter_content = (\<lambda>n. if body = [] then [] else [body]),
                 stream_error = None\<rparr>)"

text \<open>A remote side that cannot be reached: every request raises.\<close>

definition refuse :: "string \<Rightarrow> net" where
  "refuse msg = (\<lambda>rq. Inl (RequestException msg))"

text \<open>Folder pages: one with two long values, one repeated, and a short one; the page of
  the specification's example with \<open>x\<close> and \<open>ab\<close>; and that page with a long value in place of \<open>x\<close>.\<close>

definition folder_url :: string where
  "folder_url = ''https://drive.google.com/drive/folders/F''"

definition folder_page :: string where
  \<open>folder_page = ''<c-wiz data-id="1AbCdEfGhI"><div data-id='_gd'></div><div data-id = "1AbCdEfGhI"><div data-id="2JkLmNoPq">''\<close>

definition folder_page_x_ab :: string where
  \<open>folder_page_x_ab = ''<div data-id="x"></div><div data-id="x"></div><div data-id="ab"></div>''\<close>

definition folder_page_long_ab :: string where
  \<open>folder_page_long_ab = ''<div data-id="1AbCdEfGhI"></div><div data-id="1AbCdEfGhI"></div><div data-id="ab"></div>''\<close>

text \<open>A directory with one file, the rest as in \<open>fresh_world\<close>.\<close>

definition world_with :: "string \<Rightarrow> string \<Rightarrow> world" where
  "world_with filename data = fresh_world\<lparr>files := [filename \<mapsto> data]\<rparr>"


definition stream_url :: string where
  "stream_url = ''https://host/videoplayback?id=2''"

section \<open>Printing and sending change nothing else\<close>

lemma print_fields [simp]:
  "files (print l w) = files w" "writable (print l w) = writable w"
  "printed (print l w) = printed w @ [l]" "sent (print l w) = sent w"
  "opened (print l w) = opened w"
  by (simp_all add: print_def)

lemma send_fields [simp]:
  "files (send rq w) = files w" "writable (send rq w) = writable w"
  "printed (send rq w) = printed w" "sent (send rq w) = sent w @ [rq]"
  "opened (send rq w) = opened w"
  by (simp_all add: send_def)

lemma fold_print_fields [simp]:
  "files (fold (\<lambda>i. print (f i)) xs w) = files w"
  "sent (fold (\<lambda>i. print (f i)) xs w) = sent w"
  "opened (fold (\<lambda>i. print (f i)) xs w) = opened w"
  by (induction xs arbitrary: w) simp_all

section \<open>Properties of extract_drive_id\<close>

lemma startswith_file_d: "startswith ''/file/d/'' s \<longleftrightarrow> take 8 s = ''/file/d/''"
proof -
  have "length ''/file/d/'' = 8" by simp
  then show ?thesis unfolding startswith_def by presburger
qed

lemma match_file_d_segment: "match_file_d s \<noteq> None \<longleftrightarrow> segment_at s 0"
proof (cases "drop 8 s")
  case Nil
  then show ?thesis
    by (simp add: match_file_d_def segment_at_def)
next
  case (Cons a as)
  then have len: "8 < length s"
    by (cases "8 < length s") auto
  then have "s ! 8 = a"
    using Cons hd_drop_conv_nth [of 8 s] by simp
  with Cons len show ?thesis
    by (auto simp: match_file_d_def segment_at_def startswith_file_d Let_def)
qed

lemma match_file_d_value:
  "match_file_d s = Some g \<Longrightarrow> g = takeWhile is_id_char (drop 8 s)"
  by (auto simp: match_file_d_def Let_def split: if_splits)

lemma segment_at_Suc: "segment_at (c # cs) (Suc i) \<longleftrightarrow> segment_at cs i"
  by (simp add: segment_at_def add.commute)

lemma search_file_d_None:
  "search_file_d s = None \<longleftrightarrow> (\<forall>i<length s. \<not> segment_at s i)"
proof (induction s)
  case Nil
  then show ?case by (simp add: match_file_d_def startswith_def)
next
  case (Cons c cs)
  show ?case
  proof (cases "match_file_d (c # cs)")
    case None
    then have n0: "\<not> segment_at (c # cs) 0"
      using match_file_d_segment [of "c # cs"] by simp
    have "(\<forall>i<length (c # cs). \<not> segment_at (c # cs) i) \<longleftrightarrow>
          (\<forall>i<length cs. \<not> segment_at cs i)"
    proof
      assume a: "\<forall>i<length (c # cs). \<not> segment_at (c # cs) i"
      show "\<forall>i<length cs. \<not> segment_at cs i"
      proof (intro allI impI)
        fix i assume "i < length cs"
        then have "\<not> segment_at (c # cs) (Suc i)" using a by simp
        then show "\<not> segment_at cs i" by (simp add: segment_at_Suc)
      qed
    next
      assume a: "\<forall>i<length cs. \<not> segment_at cs i"
      show "\<forall>i<length (c # cs). \<not> segment_at (c # cs) i"
      proof (intro allI impI)
        fix i assume "i < length (c # cs)"
        then show "\<not> segment_at (c # cs) i"
          using a n0 by (cases i) (simp_all add: segment_at_Suc)
      qed
    qed
    with None Cons.IH show ?thesis by simp
  next
    case (Some g)
    then have "segment_at (c # cs) 0"
      using match_file_d_segment [of "c # cs"] by simp
    with Some show ?thesis by auto
  qed
qed

lemma search_file_d_first:
  "segment_at s i \<Longrightarrow> (\<And>j. j < i \<Longrightarrow> \<not> segment_at s j) \<Longrightarrow>
   search_file_d s = Some (takeWhile is_id_char (drop (i + 8) s))"
proof (induction s arbitrary: i)
  case Nil
  then show ?case by (simp add: segment_at_def)
next
  case (Cons c cs)
  show ?case
  proof (cases i)
    case 0
    with Cons.prems(1) obtain g where g: "match_file_d (c # cs) = Some g"
      using match_file_d_segment [of "c # cs"] by auto
    with 0 show ?thesis
      using match_file_d_value [OF g] by simp
  next
    case (Suc k)
    then have "\<not> segment_at (c # cs) 0"
      using Cons.prems(2) [of 0] by simp
    then have n: "match_file_d (c # cs) = None"
      using match_file_d_segment [of "c # cs"] by simp
    have "segment_at cs k"
      using Cons.prems(1) Suc by (simp add: segment_at_Suc)
    moreover have "\<And>j. j < k \<Longrightarrow> \<not> segment_at cs j"
      using Cons.prems(2) Suc segment_at_Suc by (metis Suc_less_eq)
    ultimately have "search_file_d cs = Some (takeWhile is_id_char (drop (k + 8) cs))"
      by (rule Cons.IH)
    moreover have "drop (i + 8) (c # cs) = drop (k + 8) cs"
      using Suc by (simp add: numeral_eq_Suc)
    ultimately show ?thesis using n by simp
  qed
qed

lemma search_file_d_chars:
  "search_file_d s = Some g \<Longrightarrow> g \<noteq> [] \<and> (\<forall>c\<in>set g. is_id_char c)"
proof (induction s)
  case Nil
  then show ?case by (simp add: match_file_d_def startswith_def)
next
  case (Cons c cs)
  show ?case
  proof (cases "match_file_d (c # cs)")
    case None
    with Cons show ?thesis by simp
  next
    case (Some h)
    with Cons.prems have "h = g" by simp
    with Some show ?thesis
      by (auto simp: match_file_d_def Let_def split: if_splits dest: set_takeWhileD)
  qed
qed

lemma slash_not_id_char: "\<not> is_id_char CHR ''/''"
  by (simp add: is_id_char_def code_def)

lemma search_file_d_no_slash:
  "CHR ''/'' \<notin> set s \<Longrightarrow> search_file_d s = None"
proof (induction s)
  case Nil
  then show ?case by (simp add: match_file_d_def startswith_def)
next
  case (Cons c cs)
  then have "c \<noteq> CHR ''/''" by auto
  then have "match_file_d (c # cs) = None"
    by (auto simp: match_file_d_def startswith_def)
  with Cons show ?case by simp
qed

text \<open>
  C5. When the input contains a segment \<open>/file/d/<token>\<close>, the result is exactly the
  token of the leftmost such segment: the whole run of characters of \<open>[A-Za-z0-9_-]\<close>
  that follows \<open>/file/d/\<close> there. When the input contains no such segment, the result is
  the input unchanged.
\<close>

theorem extract_drive_id_token:
  "(segment_at s i \<and> (\<forall>j<i. \<not> segment_at s j) \<longrightarrow>
      extract_drive_id s = takeWhile is_id_char (drop (i + 8) s)) \<and>
   ((\<forall>i<length s. \<not> segment_at s i) \<longrightarrow> extract_drive_id s = s)"
proof (intro conjI impI)
  assume "segment_at s i \<and> (\<forall>j<i. \<not> segment_at s j)"
  then have "search_file_d s = Some (takeWhile is_id_char (drop (i + 8) s))"
    by (intro search_file_d_first) auto
  then show "extract_drive_id s = takeWhile is_id_char (drop (i + 8) s)"
    by (simp add: extract_drive_id_def)
next
  assume "\<forall>i<length s. \<not> segment_at s i"
  then have "search_file_d s = None"
    by (simp add: search_file_d_None)
  then show "extract_drive_id s = s"
    by (simp add: extract_drive_id_def)
qed

lemma all_less_upt: "(\<forall>j<n. P j) \<longleftrightarrow> list_all P [0..<n]"
  by (auto simp: list_all_iff)

theorem extract_drive_id_token_witness:
  "segment_at ''https://drive.google.com/file/d/1aB-_9/view'' 24 \<and>
   list_all (\<lambda>j. \<not> segment_at ''https://drive.google.com/file/d/1aB-_9/view'' j) [0..<24] \<and>
   extract_drive_id ''https://drive.google.com/file/d/1aB-_9/view'' = ''1aB-_9'' \<and>
   list_all (\<lambda>i. \<not> segment_at ''abc-Qt12kjmS21'' i) [0..<length ''abc-Qt12kjmS21''] \<and>
   extract_drive_id ''abc-Qt12kjmS21'' = ''abc-Qt12kjmS21''"
proof -
  let ?u = "''https://drive.google.com/file/d/1aB-_9/view''"
  have a: "segment_at ?u 24 \<and> list_all (\<lambda>j. \<not> segment_at ?u j) [0..<24]"
    by code_simp
  have b: "list_all (\<lambda>i. \<not> segment_at ''abc-Qt12kjmS21'' i) [0..<length ''abc-Qt12kjmS21'']"
    by code_simp
  have c: "takeWhile is_id_char (drop (24 + 8) ?u) = ''1aB-_9''"
    by code_simp
  show ?thesis
    using extract_drive_id_token [of ?u 24] extract_drive_id_token [of "''abc-Qt12kjmS21''"] a b c
    unfolding all_less_upt by simp
qed

text \<open>
  C10. \<open>extract_drive_id\<close> is idempotent: an extracted token has no \<open>/\<close>, so a second
  application finds no segment in it.
\<close>

theorem extract_drive_id_idempotent:
  "extract_drive_id (extract_drive_id s) = extract_drive_id s"
proof (cases "search_file_d s")
  case None
  then show ?thesis by (simp add: extract_drive_id_def)
next
  case (Some g)
  then have "\<forall>c\<in>set g. is_id_char c"
    using search_file_d_chars by blast
  then have "CHR ''/'' \<notin> set g"
    using slash_not_id_char by blast
  then have "search_file_d g = None"
    by (rule search_file_d_no_slash)
  with Some show ?thesis by (simp add: extract_drive_id_def)
qed

section \<open>Properties of the folder listing\<close>

lemma first_seen_snoc:
  "first_seen (xs @ [x]) = (if x \<in> set xs then first_seen xs else first_seen xs @ [x])"
  by (simp add: first_seen_def)

lemma set_first_seen: "set (first_seen xs) = set xs"
  by (simp add: first_seen_def)

lemma distinct_first_seen: "distinct (first_seen xs)"
  by (simp add: first_seen_def)

text \<open>
  The loop invariant: after the matches \<open>pre\<close>, \<open>data_ids\<close> holds the long enough
  values of \<open>pre\<close> in order of first occurrence, and \<open>seen\<close> is the set of them.
\<close>

lemma collect_ids_invariant:
  "collect_ids ms (first_seen (filter (\<lambda>v. 5 \<le> length v) pre))
       (set (filter (\<lambda>v. 5 \<le> length v) pre)) =
   first_seen (filter (\<lambda>v. 5 \<le> length v) (pre @ ms))"
proof (induction ms arbitrary: pre)
  case Nil
  then show ?case by simp
next
  case (Cons m ms)
  let ?P = "\<lambda>v::string. 5 \<le> length v"
  have step: "first_seen (filter ?P (pre @ [m]) ) =
      (if ?P m \<and> m \<notin> set (filter ?P pre) then first_seen (filter ?P pre) @ [m]
       else first_seen (filter ?P pre))"
    by (simp add: first_seen_snoc)
  have sets: "set (filter ?P (pre @ [m])) =
      (if ?P m then insert m (set (filter ?P pre)) else set (filter ?P pre))"
    by auto
  have "collect_ids (m # ms) (first_seen (filter ?P pre)) (set (filter ?P pre)) =
        collect_ids ms (first_seen (filter ?P (pre @ [m]))) (set (filter ?P (pre @ [m])))"
    unfolding step sets by (auto simp: insert_absorb)
  also have "\<dots> = first_seen (filter ?P ((pre @ [m]) @ ms))"
    by (rule Cons.IH)
  finally show ?case by simp
qed

lemma collect_ids_first_seen:
  "collect_ids ms [] {} = first_seen (filter (\<lambda>v. 5 \<le> length v) ms)"
  using collect_ids_invariant [of ms "[]"] by (simp add: first_seen_def)

lemma collect_ids_first_eq: "collect_ids_first ms acc seen = collect_ids ms acc seen"
  by (induction ms acc seen rule: collect_ids.induct) simp_all

lemma folder_listing_fetched:
  assumes "net \<lparr>req_url = url, req_cookies = [], req_headers = [], req_stream = False\<rparr> =
             Inr response"
    and "raise_for_status response = Inr ()"
  shows "fst (extract_bulk_data_ids_from_folder net url verbose w) =
         first_seen (filter (\<lambda>v. 5 \<le> length v) (findall_data_id (resp_text response)))"
  using assms by (simp add: extract_bulk_data_ids_from_folder_def Let_def collect_ids_first_seen)

lemma count_list_distinct:
  "distinct xs \<Longrightarrow> count_list xs v = (if v \<in> set xs then 1 else 0)"
  by (induction xs) auto

text \<open>
  C6. For a folder body that was fetched (the request returned a response and
  \<open>raise_for_status\<close> accepted it), the list returned is the sequence of \<open>data-id\<close>
  values of the body in order of first occurrence, without the values shorter than 5
  and without the repetitions of a value already seen. So no element occurs twice and
  every element has length at least 5.
\<close>

theorem folder_listing_first_seen:
  assumes "net \<lparr>req_url = url, req_cookies = [], req_headers = [], req_stream = False\<rparr> =
             Inr response"
    and "raise_for_status response = Inr ()"
  shows "fst (extract_bulk_data_ids_from_folder net url verbose w) =
           first_seen (filter (\<lambda>v. 5 \<le> length v) (findall_data_id (resp_text response))) \<and>
         distinct (fst (extract_bulk_data_ids_from_folder net url verbose w)) \<and>
         (\<forall>v \<in> set (fst (extract_bulk_data_ids_from_folder net url verbose w)). 5 \<le> length v)"
proof -
  let ?ids = "fst (extract_bulk_data_ids_from_folder net url verbose w)"
  have eq: "?ids = first_seen (filter (\<lambda>v. 5 \<le> length v) (findall_data_id (resp_text response)))"
    using assms by (rule folder_listing_fetched)
  moreover have "distinct ?ids"
    unfolding eq by (rule distinct_first_seen)
  moreover have "\<forall>v \<in> set ?ids. 5 \<le> length v"
    unfolding eq by (simp add: set_first_seen)
  ultimately show ?thesis by blast
qed

theorem folder_listing_first_seen_witness:
  "findall_data_id folder_page = [''1AbCdEfGhI'', ''_gd'', ''1AbCdEfGhI'', ''2JkLmNoPq''] \<and>
   fst (extract_bulk_data_ids_from_folder (serve 200 folder_page) folder_url False fresh_world) =
     [''1AbCdEfGhI'', ''2JkLmNoPq''] \<and>
   distinct (fst (extract_bulk_data_ids_from_folder (serve 200 folder_page) folder_url False
                    fresh_world))"
proof -
  let ?rq = "\<lparr>req_url = folder_url, req_cookies = [], req_headers = [], req_stream = False\<rparr>"
  obtain r where a: "serve 200 folder_page ?rq = Inr r"
    and t: "resp_text r = folder_page" and st: "status_code r = 200"
    by (simp add: serve_def)
  have b: "raise_for_status r = Inr ()"
    by (simp add: raise_for_status_def st)
  have c: "findall_data_id folder_page = [''1AbCdEfGhI'', ''_gd'', ''1AbCdEfGhI'', ''2JkLmNoPq'']"
    by code_simp
  have d: "first_seen (filter (\<lambda>v. 5 \<le> length v)
             [''1AbCdEfGhI'', ''_gd'', ''1AbCdEfGhI'', ''2JkLmNoPq'']) =
           [''1AbCdEfGhI'', ''2JkLmNoPq'']"
    by (simp add: first_seen_def)
  show ?thesis
    using folder_listing_first_seen
      [of "serve 200 folder_page" folder_url r False fresh_world, OF a b] t c d
    by simp
qed

text \<open>
  C3, as amended. For a fetched folder body, a value occurs in the listing exactly
  once when it is a \<open>data-id\<close> value of the body of length at least 5, and not at all
  otherwise. So a repeated value is listed once when it is long enough, and both \<open>x\<close>
  (length 1) and \<open>ab\<close> (length 2) are left out.
\<close>

theorem folder_listing_counts:
  assumes "net \<lparr>req_url = url, req_cookies = [], req_headers = [], req_stream = False\<rparr> =
             Inr response"
    and "raise_for_status response = Inr ()"
  shows "count_list (fst (extract_bulk_data_ids_from_folder net url verbose w)) v =
           (if v \<in> set (findall_data_id (resp_text response)) \<and> 5 \<le> length v then 1 else 0)"
proof -
  let ?ids = "fst (extract_bulk_data_ids_from_folder net url verbose w)"
  have eq: "?ids = first_seen (filter (\<lambda>v. 5 \<le> length v) (findall_data_id (resp_text response)))"
    using assms by (rule folder_listing_fetched)
  have "count_list ?ids v = (if v \<in> set ?ids then 1 else 0)"
    unfolding eq by (rule count_list_distinct) (rule distinct_first_seen)
  also have "v \<in> set ?ids \<longleftrightarrow> v \<in> set (findall_data_id (resp_text response)) \<and> 5 \<le> length v"
    unfolding eq by (simp add: set_first_seen)
  finally show ?thesis .
qed

text \<open>
  The body of the specification's example: \<open>x\<close> twice and \<open>ab\<close> once. The listing is empty, so \<open>x\<close> is not
  in it once but never.
\<close>

theorem folder_listing_short_counterexample:
  "findall_data_id folder_page_x_ab = [''x'', ''x'', ''ab''] \<and>
   fst (extract_bulk_data_ids_from_folder (serve 200 folder_page_x_ab) folder_url False
          fresh_world) = [] \<and>
   count_list (fst (extract_bulk_data_ids_from_folder (serve 200 folder_page_x_ab) folder_url
                      False fresh_world)) ''x'' \<noteq> 1"
proof -
  have c: "findall_data_id folder_page_x_ab = [''x'', ''x'', ''ab'']"
    by code_simp
  have "fst (extract_bulk_data_ids_from_folder (serve 200 folder_page_x_ab) folder_url False
               fresh_world) = []"
    by (simp add: extract_bulk_data_ids_from_folder_def Let_def serve_def raise_for_status_def c)
  with c show ?thesis by simp
qed

theorem folder_listing_counts_witness:
  "findall_data_id folder_page_long_ab = [''1AbCdEfGhI'', ''1AbCdEfGhI'', ''ab''] \<and>
   count_list (fst (extract_bulk_data_ids_from_folder (serve 200 folder_page_long_ab) folder_url
                      False fresh_world)) ''1AbCdEfGhI'' = 1 \<and>
   count_list (fst (extract_bulk_data_ids_from_folder (serve 200 folder_page_long_ab) folder_url
                      False fresh_world)) ''ab'' = 0"
proof -
  let ?rq = "\<lparr>req_url = folder_url, req_cookies = [], req_headers = [], req_stream = False\<rparr>"
  obtain r where a: "serve 200 folder_page_long_ab ?rq = Inr r"
    and t: "resp_text r = folder_page_long_ab" and st: "status_code r = 200"
    by (simp add: serve_def)
  have b: "raise_for_status r = Inr ()"
    by (simp add: raise_for_status_def st)
  have c: "findall_data_id folder_page_long_ab = [''1AbCdEfGhI'', ''1AbCdEfGhI'', ''ab'']"
    by code_simp
  show ?thesis
    using folder_listing_counts
        [of "serve 200 folder_page_long_ab" folder_url r False fresh_world "''1AbCdEfGhI''",
          OF a b]
      folder_listing_counts
        [of "serve 200 folder_page_long_ab" folder_url r False fresh_world "''ab''", OF a b] t c
    by simp
qed

text \<open>
  C9, as amended. The first definition and the second one, which replaces it, return
  the same list for every outcome of the request (an exception, a refused status or a
  body) and either value of \<open>verbose\<close>; they send the same request and leave the files
  and the opened files alone. They differ only in what they print: when the body was
  fetched and \<open>verbose\<close> is off neither prints, and the two calls are equal altogether.
\<close>

theorem extract_bulk_definitions_agree:
  "fst (extract_bulk_data_ids_from_folder_first net url verbose w) =
     fst (extract_bulk_data_ids_from_folder net url verbose w) \<and>
   sent (snd (extract_bulk_data_ids_from_folder_first net url verbose w)) =
     sent (snd (extract_bulk_data_ids_from_folder net url verbose w)) \<and>
   files (snd (extract_bulk_data_ids_from_folder_first net url verbose w)) =
     files (snd (extract_bulk_data_ids_from_folder net url verbose w)) \<and>
   opened (snd (extract_bulk_data_ids_from_folder_first net url verbose w)) =
     opened (snd (extract_bulk_data_ids_from_folder net url verbose w)) \<and>
   (net \<lparr>req_url = url, req_cookies = [], req_headers = [], req_stream = False\<rparr> =
      Inr response \<and>
    raise_for_status response = Inr () \<longrightarrow>
    extract_bulk_data_ids_from_folder_first net url False w =
      extract_bulk_data_ids_from_folder net url False w)"
proof -
  let ?first = "extract_bulk_data_ids_from_folder_first net url verbose w"
  let ?second = "extract_bulk_data_ids_from_folder net url verbose w"
  have ids: "fst ?first = fst ?second"
    by (simp add: extract_bulk_data_ids_from_folder_first_def
        extract_bulk_data_ids_from_folder_def Let_def collect_ids_first_eq split: sum.splits)
  have se: "sent (snd ?first) = sent (snd ?second)"
    by (simp add: extract_bulk_data_ids_from_folder_first_def
        extract_bulk_data_ids_from_folder_def Let_def split: sum.splits)
  have fi: "files (snd ?first) = files (snd ?second)"
    by (simp add: extract_bulk_data_ids_from_folder_first_def
        extract_bulk_data_ids_from_folder_def Let_def split: sum.splits)
  have op: "opened (snd ?first) = opened (snd ?second)"
    by (simp add: extract_bulk_data_ids_from_folder_first_def
        extract_bulk_data_ids_from_folder_def Let_def split: sum.splits)
  have quiet: "extract_bulk_data_ids_from_folder_first net url False w =
               extract_bulk_data_ids_from_folder net url False w"
    if "net \<lparr>req_url = url, req_cookies = [], req_headers = [], req_stream = False\<rparr> =
          Inr response \<and> raise_for_status response = Inr ()"
    using that
    by (simp add: extract_bulk_data_ids_from_folder_first_def
        extract_bulk_data_ids_from_folder_def Let_def collect_ids_first_eq)
  from ids se fi op quiet show ?thesis by blast
qed

theorem extract_bulk_definitions_agree_witness:
  "raise_for_status
     \<lparr>status_code = 200, reason = ''OK'', resp_url = folder_url, resp_text = folder_page,
      resp_cookies = [], content_length = None, iter_content = (\<lambda>n. [folder_page]),
      stream_error = None\<rparr> = Inr () \<and>
   fst (extract_bulk_data_ids_from_folder_first (serve 200 folder_page) folder_url True
          fresh_world) = [''1AbCdEfGhI'', ''2JkLmNoPq''] \<and>
   fst (extract_bulk_data_ids_from_folder (serve 200 folder_page) folder_url True
          fresh_world) = [''1AbCdEfGhI'', ''2JkLmNoPq''] \<and>
   extract_bulk_data_ids_from_folder_first (serve 200 folder_page) folder_url False fresh_world =
     extract_bulk_data_ids_from_folder (serve 200 folder_page) folder_url False fresh_world"
proof -
  let ?rq = "\<lparr>req_url = folder_url, req_cookies = [], req_headers = [], req_stream = False\<rparr>"
  let ?r = "\<lparr>status_code = 200, reason = ''OK'', resp_url = folder_url, resp_text = folder_page,
      resp_cookies = [], content_length = None, iter_content = (\<lambda>n::int. [folder_page]),
      stream_error = None\<rparr>"
  have ne: "folder_page \<noteq> []"
    by (simp add: folder_page_def)
  have a: "serve 200 folder_page ?rq = Inr ?r"
    using ne by (simp add: serve_def)
  have b: "raise_for_status ?r = Inr ()"
    by (simp add: raise_for_status_def)
  have c: "fst (extract_bulk_data_ids_from_folder (serve 200 folder_page) folder_url True
                  fresh_world) = [''1AbCdEfGhI'', ''2JkLmNoPq'']"
    by code_simp
  have d: "fst (extract_bulk_data_ids_from_folder_first (serve 200 folder_page) folder_url True
                  fresh_world) =
           fst (extract_bulk_data_ids_from_folder (serve 200 folder_page) folder_url True
                  fresh_world)"
    and e: "extract_bulk_data_ids_from_folder_first (serve 200 folder_page) folder_url False
              fresh_world =
            extract_bulk_data_ids_from_folder (serve 200 folder_page) folder_url False fresh_world"
    using extract_bulk_definitions_agree
      [of "serve 200 folder_page" folder_url True fresh_world ?r] a b
    by simp_all
  from b c d e show ?thesis by simp
qed

text \<open>
  A request that fails: with \<open>verbose\<close> off the first definition prints
  \<open>Error fetching folder URL: ...\<close> and the second \<open>Error fetching URL: ...\<close>, so the two
  calls are not equal. With \<open>verbose\<close> on and a fetched body the second also prints
  one line for each identifier.
\<close>

theorem extract_bulk_definitions_differ_counterexample:
  "printed (snd (extract_bulk_data_ids_from_folder_first (refuse ''connection refused'')
                   folder_url False fresh_world)) =
     [''Error fetching folder URL: connection refused''] \<and>
   printed (snd (extract_bulk_data_ids_from_folder (refuse ''connection refused'')
                   folder_url False fresh_world)) =
     [''Error fetching URL: connection refused''] \<and>
   extract_bulk_data_ids_from_folder_first (refuse ''connection refused'') folder_url False
     fresh_world \<noteq>
   extract_bulk_data_ids_from_folder (refuse ''connection refused'') folder_url False
     fresh_world \<and>
   printed (snd (extract_bulk_data_ids_from_folder_first (serve 200 folder_page) folder_url True
                   fresh_world)) =
     [''[INFO] Fetching folder URL: https://drive.google.com/drive/folders/F'',
      ''[INFO] Total unique data-ids found: 2''] \<and>
   printed (snd (extract_bulk_data_ids_from_folder (serve 200 folder_page) folder_url True
                   fresh_world)) =
     [''[INFO] Fetching URL: https://drive.google.com/drive/folders/F'',
      ''[INFO] Total unique data-ids found: 2'',
      ''[INFO] Found data-id: 1AbCdEfGhI'', ''[INFO] Found data-id: 2JkLmNoPq'']"
proof -
  let ?first = "extract_bulk_data_ids_from_folder_first (refuse ''connection refused'')
                  folder_url False fresh_world"
  let ?second = "extract_bulk_data_ids_from_folder (refuse ''connection refused'')
                   folder_url False fresh_world"
  have p1: "printed (snd ?first) = [''Error fetching folder URL: connection refused'']"
    by code_simp
  have p2: "printed (snd ?second) = [''Error fetching URL: connection refused'']"
    by code_simp
  have "printed (snd ?first) \<noteq> printed (snd ?second)"
    unfolding p1 p2 by simp
  then have ne: "?first \<noteq> ?second"
    by auto
  have p3: "printed (snd (extract_bulk_data_ids_from_folder_first (serve 200 folder_page)
                            folder_url True fresh_world)) =
     [''[INFO] Fetching folder URL: https://drive.google.com/drive/folders/F'',
      ''[INFO] Total unique data-ids found: 2'']"
    by code_simp
  have p4: "printed (snd (extract_bulk_data_ids_from_folder (serve 200 folder_page) folder_url
                            True fresh_world)) =
     [''[INFO] Fetching URL: https://drive.google.com/drive/folders/F'',
      ''[INFO] Total unique data-ids found: 2'',
      ''[INFO] Found data-id: 1AbCdEfGhI'', ''[INFO] Found data-id: 2JkLmNoPq'']"
    by code_simp
  from p1 p2 ne p3 p4 show ?thesis by simp
qed

section \<open>Properties of get_video_url\<close>

lemma split_on_length: "length (split_on d s) = Suc (length (filter (\<lambda>c. c = d) s))"
  by (induction s) (auto split: list.splits)

lemma split_on_no_sep: "d \<notin> set s \<Longrightarrow> split_on d s = [s]"
  by (induction s) auto

lemma after_last_Cons:
  "after_last d (c # cs) = (if d \<in> set cs then after_last d cs else if c = d then cs else c # cs)"
proof -
  have "takeWhile (\<lambda>x. x \<noteq> d) (rev cs @ [c]) =
        (if d \<in> set cs then takeWhile (\<lambda>x. x \<noteq> d) (rev cs)
         else rev cs @ (if c = d then [] else [c]))"
    by (auto simp: takeWhile_append)
  then show ?thesis
    by (auto simp: after_last_def)
qed

lemma last_split_on: "last (split_on d s) = after_last d s"
proof (induction s)
  case Nil
  then show ?case by (simp add: after_last_def)
next
  case (Cons c cs)
  show ?case
  proof (cases "d \<in> set cs")
    case True
    then have "2 \<le> length (split_on d cs)"
      using split_on_length [of d cs] by (auto simp: filter_empty_conv Suc_le_eq)
    then obtain p q ps where "split_on d cs = p # q # ps"
      by (cases "split_on d cs"; cases "tl (split_on d cs)") auto
    with True Cons show ?thesis
      by (simp add: after_last_Cons)
  next
    case False
    then show ?thesis
      by (simp add: after_last_Cons split_on_no_sep)
  qed
qed

lemma unquote_Nil_iff: "unquote s = [] \<longleftrightarrow> s = []"
  by (cases s) (auto split: list.splits)

lemma truthy_simps: "truthy None = False" "truthy (Some s) = (s \<noteq> [])"
  by (simp_all add: truthy_def)

lemma scan_contents_title:
  "snd (scan_contents toks video title) =
     (if truthy title then title
      else case filter (\<lambda>t. startswith ''title='' t \<and> after_last CHR ''='' t \<noteq> []) toks of
             t # _ \<Rightarrow> Some (unquote (after_last CHR ''='' t))
           | [] \<Rightarrow> if list_ex (startswith ''title='') toks then Some [] else title)"
proof (induction toks arbitrary: video title)
  case Nil
  then show ?case by simp
next
  case (Cons c cs)
  show ?case
  proof (cases "startswith ''title='' c \<and> \<not> truthy title")
    case True
    then show ?thesis
      by (cases "after_last CHR ''='' c = []")
         (simp_all add: Cons.IH Let_def last_split_on unquote_Nil_iff truthy_simps)
  next
    case False
    then show ?thesis
      by (cases "truthy title")
         (auto simp add: Cons.IH Let_def last_split_on unquote_Nil_iff truthy_simps)
  qed
qed




lemma get_video_url_result:
  "fst (get_video_url page verbose w) = scan_contents (split_on CHR ''&'' page) None None"
  by (simp add: get_video_url_def Let_def split: prod.splits)

text \<open>
  C1, as amended. The title comes from the first token that starts with \<open>title=\<close> and
  does not end with \<open>=\<close>: it is the percent-decoding of the part of that token after its
  last \<open>=\<close>. When every token that starts with \<open>title=\<close> ends with \<open>=\<close> the title is
  empty, and without such a token it is absent.
\<close>

theorem title_after_last_equals:
  "snd (fst (get_video_url page verbose w)) =
     (case filter (\<lambda>t. startswith ''title='' t \<and> after_last CHR ''='' t \<noteq> [])
             (split_on CHR ''&'' page) of
        t # _ \<Rightarrow> Some (unquote (after_last CHR ''='' t))
      | [] \<Rightarrow> if list_ex (startswith ''title='') (split_on CHR ''&'' page) then Some [] else None)"
proof -
  have "snd (fst (get_video_url page verbose w)) =
        snd (scan_contents (split_on CHR ''&'' page) None None)"
    by (simp add: get_video_url_result)
  then show ?thesis
    by (simp add: scan_contents_title truthy_simps)
qed

text \<open>
  The token \<open>title=a=b\<close> gives the title \<open>b\<close>, not the whole remainder \<open>a=b\<close>; and an
  empty first title lets the second \<open>title=\<close> token through.
\<close>

theorem title_remainder_counterexample:
  "snd (fst (get_video_url ''a=1&title=a=b'' False fresh_world)) = Some ''b'' \<and>
   snd (fst (get_video_url ''a=1&title=a=b'' False fresh_world)) \<noteq>
     Some (unquote (drop 6 ''title=a=b'')) \<and>
   snd (fst (get_video_url ''title=&title=x'' False fresh_world)) = Some ''x''"
proof -
  have "scan_contents (split_on CHR ''&'' ''a=1&title=a=b'') None None = (None, Some ''b'')"
    by code_simp
  moreover have "unquote (drop 6 ''title=a=b'') = ''a=b''"
    by code_simp
  moreover have "scan_contents (split_on CHR ''&'' ''title=&title=x'') None None =
                 (None, Some ''x'')"
    by code_simp
  ultimately show ?thesis
    by (simp add: get_video_url_result)
qed




section \<open>Properties of download_file\<close>

lemma open_file_fields:
  "open_file filename file_mode w = Inr w' \<Longrightarrow>
     opened w' = opened w @ [(filename, file_mode)] \<and> sent w' = sent w \<and>
     printed w' = printed w \<and> writable w filename"
  by (auto simp: open_file_def split: if_splits)

lemma open_file_writable:
  "writable w filename \<Longrightarrow> \<exists>w'. open_file filename file_mode w = Inr w'"
  by (simp add: open_file_def)

lemma write_file_fields [simp]:
  "opened (write_file filename chunk w) = opened w"
  "sent (write_file filename chunk w) = sent w"
  "printed (write_file filename chunk w) = printed w"
  by (simp_all add: write_file_def)

lemma fold_write_fields [simp]:
  "opened (fold (\<lambda>chunk v. if chunk \<noteq> [] then write_file filename chunk v else v) chunks w) =
     opened w"
  "sent (fold (\<lambda>chunk v. if chunk \<noteq> [] then write_file filename chunk v else v) chunks w) =
     sent w"
  "printed (fold (\<lambda>chunk v. if chunk \<noteq> [] then write_file filename chunk v else v) chunks w) =
     printed w"
  by (induction chunks arbitrary: w) simp_all

text \<open>The request of a call, and the world when the response arrives.\<close>

lemma download_file_shape:
  fixes net :: net
  defines "rq \<equiv> \<lambda>url cookies filename w.
     \<lparr>req_url = url, req_cookies = cookies,
       req_headers = (if path_exists w filename
                      then [(''Range'', ''bytes='' @ str_nat (getsize w filename) @ ''-'')]
                      else []),
       req_stream = True\<rparr>"
  shows "\<exists>w2 info. sent w2 = sent w @ [rq url cookies filename w] \<and> files w2 = files w \<and>
     opened w2 = opened w \<and> writable w2 = writable w \<and> printed w2 = printed w @ info \<and>
     download_file net url cookies filename chunk_size verbose w =
       (case net (rq url cookies filename w) of
          Inl e \<Rightarrow> (Inl e, w2)
        | Inr response \<Rightarrow>
            if status_code response = 200 \<or> status_code response = 206 then
              (case (case content_length response of None \<Rightarrow> Inr 0 | Some h \<Rightarrow> py_int h) of
                 Inl e \<Rightarrow> (Inl e, w2)
               | Inr n \<Rightarrow>
                   (case open_file filename (if path_exists w filename then ''ab'' else ''wb'') w2 of
                      Inl e \<Rightarrow> (Inl e, w2)
                    | Inr w3 \<Rightarrow>
                        (case stream_error response of
                           Some e \<Rightarrow>
                             (Inl e,
                              fold (\<lambda>chunk v. if chunk \<noteq> [] then write_file filename chunk v else v)
                                (iter_content response chunk_size) w3)
                         | None \<Rightarrow>
                             (Inr (), print (CHR 0x0A # filename @ '' downloaded successfully.'')
                                (fold (\<lambda>chunk v. if chunk \<noteq> [] then write_file filename chunk v else v)
                                   (iter_content response chunk_size) w3)))))
            else (Inr (), print (''Error downloading '' @ filename @ '', status code: '' @
                                   str_nat (status_code response)) w2))"
proof -
  define w1 where "w1 = (if verbose
                then (let v = print (''[INFO] Starting download from '' @ url) w
                      in if (if path_exists w filename then getsize w filename else 0) > 0
                         then print (''[INFO] Resuming download from byte '' @
                                str_nat (if path_exists w filename then getsize w filename else 0)) v
                         else v)
                else w)"
  define w2 where "w2 = send (rq url cookies filename w) w1"
  have f1: "files w1 = files w \<and> opened w1 = opened w \<and> writable w1 = writable w \<and>
            sent w1 = sent w"
    unfolding w1_def Let_def by simp
  have f2: "\<exists>info. printed w1 = printed w @ info"
    unfolding w1_def Let_def by simp
  then obtain info where i: "printed w1 = printed w @ info" by blast
  have eq: "download_file net url cookies filename chunk_size verbose w =
       (case net (rq url cookies filename w) of
          Inl e \<Rightarrow> (Inl e, w2)
        | Inr response \<Rightarrow>
            if status_code response = 200 \<or> status_code response = 206 then
              (case (case content_length response of None \<Rightarrow> Inr 0 | Some h \<Rightarrow> py_int h) of
                 Inl e \<Rightarrow> (Inl e, w2)
               | Inr n \<Rightarrow>
                   (case open_file filename (if path_exists w filename then ''ab'' else ''wb'') w2 of
                      Inl e \<Rightarrow> (Inl e, w2)
                    | Inr w3 \<Rightarrow>
                        (case stream_error response of
                           Some e \<Rightarrow>
                             (Inl e,
                              fold (\<lambda>chunk v. if chunk \<noteq> [] then write_file filename chunk v else v)
                                (iter_content response chunk_size) w3)
                         | None \<Rightarrow>
                             (Inr (), print (CHR 0x0A # filename @ '' downloaded successfully.'')
                                (fold (\<lambda>chunk v. if chunk \<noteq> [] then write_file filename chunk v else v)
                                   (iter_content response chunk_size) w3)))))
            else (Inr (), print (''Error downloading '' @ filename @ '', status code: '' @
                                   str_nat (status_code response)) w2))"
    unfolding download_file_def Let_def w2_def w1_def rq_def
    by (cases "path_exists w filename") simp_all
  show ?thesis
    using f1 i eq unfolding w2_def
    by (intro exI [of _ "send (rq url cookies filename w) w1"] exI [of _ info]) simp
qed


lemma download_file_sent:
  "sent (snd (download_file net url cookies filename chunk_size verbose w)) =
     sent w @
     [\<lparr>req_url = url, req_cookies = cookies,
       req_headers = (if path_exists w filename
                      then [(''Range'', ''bytes='' @ str_nat (getsize w filename) @ ''-'')]
                      else []),
       req_stream = True\<rparr>]"
proof -
  let ?rq = "\<lparr>req_url = url, req_cookies = cookies,
       req_headers = (if path_exists w filename
                      then [(''Range'', ''bytes='' @ str_nat (getsize w filename) @ ''-'')]
                      else []),
       req_stream = True\<rparr>"
  let ?mode = "if path_exists w filename then ''ab'' else ''wb''"
  let ?R = "download_file net url cookies filename chunk_size verbose w"
  obtain w2 info where s2: "sent w2 = sent w @ [?rq]" and o2: "opened w2 = opened w"
    and wr2: "writable w2 = writable w"
    and eq: "?R =
       (case net ?rq of
          Inl e \<Rightarrow> (Inl e, w2)
        | Inr response \<Rightarrow>
            if status_code response = 200 \<or> status_code response = 206 then
              (case (case content_length response of None \<Rightarrow> Inr 0 | Some h \<Rightarrow> py_int h) of
                 Inl e \<Rightarrow> (Inl e, w2)
               | Inr n \<Rightarrow>
                   (case open_file filename ?mode w2 of
                      Inl e \<Rightarrow> (Inl e, w2)
                    | Inr w3 \<Rightarrow>
                        (case stream_error response of
                           Some e \<Rightarrow>
                             (Inl e,
                              fold (\<lambda>chunk v. if chunk \<noteq> [] then write_file filename chunk v else v)
                                (iter_content response chunk_size) w3)
                         | None \<Rightarrow>
                             (Inr (), print (CHR 0x0A # filename @ '' downloaded successfully.'')
                                (fold (\<lambda>chunk v. if chunk \<noteq> [] then write_file filename chunk v else v)
                                   (iter_content response chunk_size) w3)))))
            else (Inr (), print (''Error downloading '' @ filename @ '', status code: '' @
                                   str_nat (status_code response)) w2))"
    using download_file_shape [of w url cookies filename net chunk_size verbose] by blast
  have opened_w3: "opened w3 = opened w @ [(filename, ?mode)] \<and> sent w3 = sent w2"
    if "open_file filename ?mode w2 = Inr w3" for w3
    using open_file_fields [OF that] o2 by simp
  show ?thesis
  proof (cases "net ?rq")
    case (Inl e)
    with eq s2 show ?thesis by simp
  next
    case (Inr r)
    show ?thesis
    proof (cases "status_code r = 200 \<or> status_code r = 206")
      case False
      with eq Inr s2 show ?thesis by simp
    next
      case True
      show ?thesis
      proof (cases "case content_length r of None \<Rightarrow> Inr 0 | Some h \<Rightarrow> py_int h")
        case (Inl e)
        with eq Inr True s2 show ?thesis by simp
      next
        case pr: (Inr m)
        show ?thesis
        proof (cases "open_file filename ?mode w2")
          case (Inl e)
          with eq Inr True pr s2 show ?thesis by simp
        next
          case op: (Inr w3)
          with eq Inr True pr s2 opened_w3 [OF op] show ?thesis
            by (cases "stream_error r") simp_all
        qed
      qed
    qed
  qed
qed

text \<open>
  C2, as amended. The request carries the header \<open>Range: bytes=N-\<close>, with \<open>N\<close> the size
  of the local file, exactly when the local file exists, whatever its size (also
  \<open>bytes=0-\<close> for an empty file), and carries no header when the file is absent. When
  the call opens the file, it opens it for append (\<open>ab\<close>) if the file existed and for
  fresh write (\<open>wb\<close>) if it was absent; and it does open it when the status is 200 or
  206, the content length reads as a number and the name can be written.
\<close>

theorem download_file_resume:
  "sent (snd (download_file net url cookies filename chunk_size verbose w)) =
     sent w @
     [\<lparr>req_url = url, req_cookies = cookies,
       req_headers = (if path_exists w filename
                      then [(''Range'', ''bytes='' @ str_nat (getsize w filename) @ ''-'')]
                      else []),
       req_stream = True\<rparr>] \<and>
   (opened (snd (download_file net url cookies filename chunk_size verbose w)) = opened w \<or>
    opened (snd (download_file net url cookies filename chunk_size verbose w)) =
      opened w @ [(filename, if path_exists w filename then ''ab'' else ''wb'')]) \<and>
   (net \<lparr>req_url = url, req_cookies = cookies,
          req_headers = (if path_exists w filename
                         then [(''Range'', ''bytes='' @ str_nat (getsize w filename) @ ''-'')]
                         else []),
          req_stream = True\<rparr> = Inr response \<and>
    (status_code response = 200 \<or> status_code response = 206) \<and>
    (case content_length response of None \<Rightarrow> Inr 0 | Some h \<Rightarrow> py_int h) = Inr n \<and>
    writable w filename \<longrightarrow>
    opened (snd (download_file net url cookies filename chunk_size verbose w)) =
      opened w @ [(filename, if path_exists w filename then ''ab'' else ''wb'')])"
proof -
  let ?rq = "\<lparr>req_url = url, req_cookies = cookies,
       req_headers = (if path_exists w filename
                      then [(''Range'', ''bytes='' @ str_nat (getsize w filename) @ ''-'')]
                      else []),
       req_stream = True\<rparr>"
  let ?mode = "if path_exists w filename then ''ab'' else ''wb''"
  let ?R = "download_file net url cookies filename chunk_size verbose w"
  obtain w2 info where s2: "sent w2 = sent w @ [?rq]" and o2: "opened w2 = opened w"
    and wr2: "writable w2 = writable w"
    and eq: "?R =
       (case net ?rq of
          Inl e \<Rightarrow> (Inl e, w2)
        | Inr response \<Rightarrow>
            if status_code response = 200 \<or> status_code response = 206 then
              (case (case content_length response of None \<Rightarrow> Inr 0 | Some h \<Rightarrow> py_int h) of
                 Inl e \<Rightarrow> (Inl e, w2)
               | Inr n \<Rightarrow>
                   (case open_file filename ?mode w2 of
                      Inl e \<Rightarrow> (Inl e, w2)
                    | Inr w3 \<Rightarrow>
                        (case stream_error response of
                           Some e \<Rightarrow>
                             (Inl e,
                              fold (\<lambda>chunk v. if chunk \<noteq> [] then write_file filename chunk v else v)
                                (iter_content response chunk_size) w3)
                         | None \<Rightarrow>
                             (Inr (), print (CHR 0x0A # filename @ '' downloaded successfully.'')
                                (fold (\<lambda>chunk v. if chunk \<noteq> [] then write_file filename chunk v else v)
                                   (iter_content response chunk_size) w3)))))
            else (Inr (), print (''Error downloading '' @ filename @ '', status code: '' @
                                   str_nat (status_code response)) w2))"
    using download_file_shape [of w url cookies filename net chunk_size verbose] by blast
  have opened_w3: "opened w3 = opened w @ [(filename, ?mode)] \<and> sent w3 = sent w2"
    if "open_file filename ?mode w2 = Inr w3" for w3
    using open_file_fields [OF that] o2 by simp
  have a: "sent (snd ?R) = sent w @ [?rq]"
    by (rule download_file_sent)
  have b: "opened (snd ?R) = opened w \<or> opened (snd ?R) = opened w @ [(filename, ?mode)]"
  proof (cases "net ?rq")
    case (Inl e)
    with eq o2 show ?thesis by simp
  next
    case (Inr r)
    show ?thesis
    proof (cases "status_code r = 200 \<or> status_code r = 206")
      case False
      with eq Inr o2 show ?thesis by simp
    next
      case True
      show ?thesis
      proof (cases "case content_length r of None \<Rightarrow> Inr 0 | Some h \<Rightarrow> py_int h")
        case (Inl e)
        with eq Inr True o2 show ?thesis by simp
      next
        case pr: (Inr m)
        show ?thesis
        proof (cases "open_file filename ?mode w2")
          case (Inl e)
          with eq Inr True pr o2 show ?thesis by simp
        next
          case op: (Inr w3)
          with eq Inr True pr opened_w3 [OF op] show ?thesis
            by (cases "stream_error r") simp_all
        qed
      qed
    qed
  qed
  have c: "opened (snd ?R) = opened w @ [(filename, ?mode)]"
    if h: "net ?rq = Inr response \<and>
           (status_code response = 200 \<or> status_code response = 206) \<and>
           (case content_length response of None \<Rightarrow> Inr 0 | Some h \<Rightarrow> py_int h) = Inr n \<and>
           writable w filename"
  proof -
    from h wr2 have "writable w2 filename" by simp
    then obtain w3 where op: "open_file filename ?mode w2 = Inr w3"
      using open_file_writable by blast
    from h have "?R =
        (case stream_error response of
           Some e \<Rightarrow>
             (Inl e,
              fold (\<lambda>chunk v. if chunk \<noteq> [] then write_file filename chunk v else v)
                (iter_content response chunk_size) w3)
         | None \<Rightarrow>
             (Inr (), print (CHR 0x0A # filename @ '' downloaded successfully.'')
                (fold (\<lambda>chunk v. if chunk \<noteq> [] then write_file filename chunk v else v)
                   (iter_content response chunk_size) w3)))"
      by (simp add: eq op)
    with opened_w3 [OF op] show ?thesis
      by (cases "stream_error response") simp_all
  qed
  from a b c show ?thesis by blast
qed

theorem download_file_resume_witness:
  "path_exists (world_with ''video.mp4'' ''abc'') ''video.mp4'' \<and>
   getsize (world_with ''video.mp4'' ''abc'') ''video.mp4'' = 3 \<and>
   sent (snd (download_file (serve 206 ''defg'') stream_url [] ''video.mp4'' 1024 False
                (world_with ''video.mp4'' ''abc''))) =
     [\<lparr>req_url = stream_url, req_cookies = [], req_headers = [(''Range'', ''bytes=3-'')],
       req_stream = True\<rparr>] \<and>
   opened (snd (download_file (serve 206 ''defg'') stream_url [] ''video.mp4'' 1024 False
                  (world_with ''video.mp4'' ''abc''))) = [(''video.mp4'', ''ab'')] \<and>
   files (snd (download_file (serve 206 ''defg'') stream_url [] ''video.mp4'' 1024 False
                 (world_with ''video.mp4'' ''abc''))) ''video.mp4'' = Some ''abcdefg'' \<and>
   \<not> path_exists fresh_world ''video.mp4'' \<and>
   sent (snd (download_file (serve 200 ''defg'') stream_url [] ''video.mp4'' 1024 False
                fresh_world)) =
     [\<lparr>req_url = stream_url, req_cookies = [], req_headers = [], req_stream = True\<rparr>] \<and>
   opened (snd (download_file (serve 200 ''defg'') stream_url [] ''video.mp4'' 1024 False
                  fresh_world)) = [(''video.mp4'', ''wb'')]"
proof -
  let ?W = "world_with ''video.mp4'' ''abc''"
  let ?h = "\<lambda>w. if path_exists w ''video.mp4''
                then [(''Range'', ''bytes='' @ str_nat (getsize w ''video.mp4'') @ ''-'')] else []"
  let ?rq = "\<lambda>w. \<lparr>req_url = stream_url, req_cookies = [], req_headers = ?h w,
                    req_stream = True\<rparr>"
  have ex: "path_exists ?W ''video.mp4''" and sz: "getsize ?W ''video.mp4'' = 3"
    and nex: "\<not> path_exists fresh_world ''video.mp4''"
    by code_simp+
  have hd: "str_nat 3 = ''3''"
    by code_simp
  have wrW: "writable ?W ''video.mp4''" and wrF: "writable fresh_world ''video.mp4''"
    and opW: "opened ?W = []" and opF: "opened fresh_world = []"
    and seW: "sent ?W = []" and seF: "sent fresh_world = []"
    by (simp_all add: world_with_def fresh_world_def)
  obtain r where r: "serve 206 ''defg'' (?rq ?W) = Inr r" and rs: "status_code r = 206"
    and rc: "content_length r = None"
    by (simp add: serve_def)
  obtain q where q: "serve 200 ''defg'' (?rq fresh_world) = Inr q" and qs: "status_code q = 200"
    and qc: "content_length q = None"
    by (simp add: serve_def)
  have fl: "files (snd (download_file (serve 206 ''defg'') stream_url [] ''video.mp4'' 1024 False
                 ?W)) ''video.mp4'' = Some ''abcdefg''"
    by code_simp
  have t1: "sent (snd (download_file (serve 206 ''defg'') stream_url [] ''video.mp4'' 1024 False
                ?W)) = [?rq ?W]"
    and t2: "opened (snd (download_file (serve 206 ''defg'') stream_url [] ''video.mp4'' 1024
                False ?W)) = [(''video.mp4'', ''ab'')]"
    using download_file_resume
      [of "serve 206 ''defg''" stream_url "[]" "''video.mp4''" 1024 False ?W r 0]
      r rs rc wrW opW seW ex
    by simp_all
  have t3: "sent (snd (download_file (serve 200 ''defg'') stream_url [] ''video.mp4'' 1024 False
                fresh_world)) = [?rq fresh_world]"
    and t4: "opened (snd (download_file (serve 200 ''defg'') stream_url [] ''video.mp4'' 1024
                False fresh_world)) = [(''video.mp4'', ''wb'')]"
    using download_file_resume
      [of "serve 200 ''defg''" stream_url "[]" "''video.mp4''" 1024 False fresh_world q 0]
      q qs qc wrF opF seF nex
    by simp_all
  from ex sz nex fl t1 t2 t3 t4 hd show ?thesis by simp
qed

text \<open>
  An existing file of size 0: the request carries \<open>Range: bytes=0-\<close> and the file is
  opened for append.
\<close>

theorem download_file_empty_file_counterexample:
  "path_exists (world_with ''video.mp4'' []) ''video.mp4'' \<and>
   getsize (world_with ''video.mp4'' []) ''video.mp4'' = 0 \<and>
   sent (snd (download_file (serve 200 ''defg'') stream_url [] ''video.mp4'' 1024 False
                (world_with ''video.mp4'' []))) =
     [\<lparr>req_url = stream_url, req_cookies = [], req_headers = [(''Range'', ''bytes=0-'')],
       req_stream = True\<rparr>] \<and>
   opened (snd (download_file (serve 200 ''defg'') stream_url [] ''video.mp4'' 1024 False
                  (world_with ''video.mp4'' []))) = [(''video.mp4'', ''ab'')]"
  by code_simp

text \<open>
  C8. When the response to the request of the call has a status other than 200 and
  206, the call returns without an exception, the last thing printed is the error
  message with the filename and the status, and the files and the list of opened files
  are what they were before the call.
\<close>

theorem download_file_bad_status:
  "net (last (sent (snd (download_file net url cookies filename chunk_size verbose w)))) =
     Inr response \<and>
   status_code response \<noteq> 200 \<and> status_code response \<noteq> 206 \<longrightarrow>
   fst (download_file net url cookies filename chunk_size verbose w) = Inr () \<and>
   (\<exists>info. printed (snd (download_file net url cookies filename chunk_size verbose w)) =
      printed w @ info @
      [''Error downloading '' @ filename @ '', status code: '' @
       str_nat (status_code response)]) \<and>
   files (snd (download_file net url cookies filename chunk_size verbose w)) = files w \<and>
   opened (snd (download_file net url cookies filename chunk_size verbose w)) = opened w"
proof
  let ?rq = "\<lparr>req_url = url, req_cookies = cookies,
       req_headers = (if path_exists w filename
                      then [(''Range'', ''bytes='' @ str_nat (getsize w filename) @ ''-'')]
                      else []),
       req_stream = True\<rparr>"
  let ?mode = "if path_exists w filename then ''ab'' else ''wb''"
  let ?R = "download_file net url cookies filename chunk_size verbose w"
  let ?msg = "''Error downloading '' @ filename @ '', status code: '' @
       str_nat (status_code response)"
  assume h: "net (last (sent (snd ?R))) = Inr response \<and>
             status_code response \<noteq> 200 \<and> status_code response \<noteq> 206"
  obtain w2 info where f2: "files w2 = files w" and o2: "opened w2 = opened w"
    and p2: "printed w2 = printed w @ info"
    and eq: "?R =
       (case net ?rq of
          Inl e \<Rightarrow> (Inl e, w2)
        | Inr response \<Rightarrow>
            if status_code response = 200 \<or> status_code response = 206 then
              (case (case content_length response of None \<Rightarrow> Inr 0 | Some h \<Rightarrow> py_int h) of
                 Inl e \<Rightarrow> (Inl e, w2)
               | Inr n \<Rightarrow>
                   (case open_file filename ?mode w2 of
                      Inl e \<Rightarrow> (Inl e, w2)
                    | Inr w3 \<Rightarrow>
                        (case stream_error response of
                           Some e \<Rightarrow>
                             (Inl e,
                              fold (\<lambda>chunk v. if chunk \<noteq> [] then write_file filename chunk v else v)
                                (iter_content response chunk_size) w3)
                         | None \<Rightarrow>
                             (Inr (), print (CHR 0x0A # filename @ '' downloaded successfully.'')
                                (fold (\<lambda>chunk v. if chunk \<noteq> [] then write_file filename chunk v else v)
                                   (iter_content response chunk_size) w3)))))
            else (Inr (), print (''Error downloading '' @ filename @ '', status code: '' @
                                   str_nat (status_code response)) w2))"
    using download_file_shape [of w url cookies filename net chunk_size verbose] by blast
  have "sent (snd ?R) = sent w @ [?rq]"
    by (rule download_file_sent)
  then have "last (sent (snd ?R)) = ?rq" by simp
  with h have n: "net ?rq = Inr response" by simp
  with h have R: "?R = (Inr (), print ?msg w2)"
    by (simp add: eq)
  have "printed (snd ?R) = printed w @ info @ [?msg]"
    unfolding R using p2 by simp
  then have "\<exists>info. printed (snd ?R) = printed w @ info @ [?msg]" by blast
  moreover have "fst ?R = Inr ()" unfolding R by simp
  moreover have "files (snd ?R) = files w" unfolding R using f2 by simp
  moreover have "opened (snd ?R) = opened w" unfolding R using o2 by simp
  ultimately show "fst ?R = Inr () \<and>
      (\<exists>info. printed (snd ?R) = printed w @ info @ [?msg]) \<and>
      files (snd ?R) = files w \<and> opened (snd ?R) = opened w"
    by blast
qed

theorem download_file_bad_status_witness:
  "fst (download_file (serve 403 ''Forbidden'') stream_url [] ''video.mp4'' 1024 False
          (world_with ''video.mp4'' ''abc'')) = Inr () \<and>
   printed (snd (download_file (serve 403 ''Forbidden'') stream_url [] ''video.mp4'' 1024 False
                   (world_with ''video.mp4'' ''abc''))) =
     [''Error downloading video.mp4, status code: 403''] \<and>
   files (snd (download_file (serve 403 ''Forbidden'') stream_url [] ''video.mp4'' 1024 False
                 (world_with ''video.mp4'' ''abc''))) ''video.mp4'' = Some ''abc'' \<and>
   opened (snd (download_file (serve 403 ''Forbidden'') stream_url [] ''video.mp4'' 1024 False
                  (world_with ''video.mp4'' ''abc''))) = []"
proof -
  let ?W = "world_with ''video.mp4'' ''abc''"
  let ?R = "download_file (serve 403 ''Forbidden'') stream_url [] ''video.mp4'' 1024 False ?W"
  obtain r where r: "serve 403 ''Forbidden'' (last (sent (snd ?R))) = Inr r"
    and rs: "status_code r = 403"
    by (simp add: serve_def)
  have W: "files ?W ''video.mp4'' = Some ''abc''" "opened ?W = []"
    by (simp_all add: world_with_def fresh_world_def)
  have p: "printed (snd ?R) = [''Error downloading video.mp4, status code: 403'']"
    by code_simp
  have "fst ?R = Inr () \<and> files (snd ?R) = files ?W \<and> opened (snd ?R) = opened ?W"
    using download_file_bad_status
      [of "serve 403 ''Forbidden''" stream_url "[]" "''video.mp4''" 1024 False ?W r] r rs
    by simp
  with W p show ?thesis by simp
qed

section \<open>Properties of the output filename\<close>







end
